theory Spec2Isabelle
  imports Main "HOL-Library.Sublist"
begin

section \<open>Data model of the debate graph (src/graph.py)\<close>

text \<open>
  A message of the transcript: its text and the name of the persona that spoke it, the two
  fields that \<^verbatim>\<open>agent_node\<close> and \<^verbatim>\<open>main\<close> read and that line 108 of src/graph.py names.
\<close>

record message =
  content :: string
  name :: string

text \<open>
  \<^verbatim>\<open>class GraphState(TypedDict)\<close>. Python's \<^verbatim>\<open>int\<close> is unbounded, hence \<^typ>\<open>int\<close>.
  The initial state built by \<^verbatim>\<open>main\<close> has no key for the three judgement fields, so they
  are optional here.
\<close>

record GraphState =
  topic :: string
  messages :: "message list"
  round_number :: int
  next_speaker :: string
  winner :: "string option"
  justification :: "string option"
  summary :: "string option"

text \<open>
  A node returns a dictionary holding only the keys it writes. \<open>None\<close> is an absent key.
\<close>

record state_update =
  u_messages :: "message list option"
  u_round_number :: "int option"
  u_next_speaker :: "string option"
  u_winner :: "string option"
  u_justification :: "string option"
  u_summary :: "string option"

definition no_update :: state_update where
  "no_update = \<lparr>u_messages = None, u_round_number = None, u_next_speaker = None,
     u_winner = None, u_justification = None, u_summary = None\<rparr>"

text \<open>
  Merging a node's output into the state. The key \<^verbatim>\<open>messages\<close> is annotated with the reducer
  \<^verbatim>\<open>lambda x, y: x + y\<close>, so what a node writes there is appended; every other key has no
  reducer and a written value replaces the old one. A key the node did not write is kept.
\<close>

definition apply_update :: "GraphState \<Rightarrow> state_update \<Rightarrow> GraphState" where
  "apply_update s u =
     \<lparr>topic = topic s,
      messages = (case u_messages u of None \<Rightarrow> messages s | Some y \<Rightarrow> messages s @ y),
      round_number = (case u_round_number u of None \<Rightarrow> round_number s | Some n \<Rightarrow> n),
      next_speaker = (case u_next_speaker u of None \<Rightarrow> next_speaker s | Some p \<Rightarrow> p),
      winner = (case u_winner u of None \<Rightarrow> winner s | Some w \<Rightarrow> Some w),
      justification =
        (case u_justification u of None \<Rightarrow> justification s | Some j \<Rightarrow> Some j),
      summary = (case u_summary u of None \<Rightarrow> summary s | Some t \<Rightarrow> Some t)\<rparr>"

text \<open>The state \<^verbatim>\<open>main\<close> starts the graph from (src/main.py, \<^verbatim>\<open>initial_state\<close>).\<close>

definition initial_state :: "string \<Rightarrow> GraphState" where
  "initial_state t =
     \<lparr>topic = t, messages = [], round_number = 0, next_speaker = ''Scientist'',
      winner = None, justification = None, summary = None\<rparr>"

section \<open>Python string and list operations used by the nodes\<close>

datatype py_error = IndexError | ValueError | KeyError | TypeError

definition bind_py :: "py_error + 'a \<Rightarrow> ('a \<Rightarrow> py_error + 'b) \<Rightarrow> py_error + 'b" where
  "bind_py r f = (case r of Inl e \<Rightarrow> Inl e | Inr x \<Rightarrow> f x)"

text \<open>\<^verbatim>\<open>xs[i]\<close> for the non-negative literal indices the source uses.\<close>

definition index_py :: "'a list \<Rightarrow> nat \<Rightarrow> py_error + 'a" where
  "index_py xs i = (if i < length xs then Inr (xs ! i) else Inl IndexError)"

text \<open>
  \<^verbatim>\<open>str.isspace\<close> on one character. A \<^typ>\<open>char\<close> is read as a code point below 256; the
  whitespace code points in that range are 9 to 13, 28 to 32, 133 and 160.
\<close>

definition isspace :: "char \<Rightarrow> bool" where
  "isspace c =
     (let n = (of_char c :: nat)
      in (9 \<le> n \<and> n \<le> 13) \<or> (28 \<le> n \<and> n \<le> 32) \<or> n = 133 \<or> n = 160)"

text \<open>\<^verbatim>\<open>s.strip()\<close>: whitespace is removed at both ends.\<close>

definition strip_py :: "string \<Rightarrow> string" where
  "strip_py s = rev (dropWhile isspace (rev (dropWhile isspace s)))"

text \<open>\<^verbatim>\<open>s.find(sep)\<close>: the index of the leftmost occurrence, \<open>None\<close> for Python's -1.\<close>

fun find_py :: "string \<Rightarrow> string \<Rightarrow> nat option" where
  "find_py [] sep = (if sep = [] then Some 0 else None)"
| "find_py (c # cs) sep =
     (if prefix sep (c # cs) then Some 0 else map_option Suc (find_py cs sep))"

text \<open>
  \<^verbatim>\<open>s.split(sep)\<close> cuts at the occurrences of the separator found from left to right, each
  search starting behind the previous occurrence. The empty separator raises ValueError.
\<close>

function split_loop :: "string \<Rightarrow> string \<Rightarrow> string list" where
  "split_loop s sep =
     (case find_py s sep of
        None \<Rightarrow> [s]
      | Some i \<Rightarrow>
          if sep = [] then [s] else take i s # split_loop (drop (i + length sep) s) sep)"
  by pat_completeness auto

lemma find_py_least:
  "find_py s sep = Some i \<longleftrightarrow>
     (i \<le> length s \<and> prefix sep (drop i s) \<and> (\<forall>j<i. \<not> prefix sep (drop j s)))"
proof (induction s arbitrary: i)
  case Nil
  then show ?case by auto
next
  case (Cons c cs)
  show ?case
  proof (cases "prefix sep (c # cs)")
    case True
    then show ?thesis by (cases i) auto
  next
    case False
    show ?thesis
    proof (cases i)
      case 0
      with False show ?thesis by simp
    next
      case (Suc k)
      have "(\<forall>j<Suc k. \<not> prefix sep (drop j (c # cs))) \<longleftrightarrow> (\<forall>j<k. \<not> prefix sep (drop j cs))"
        using False by (auto simp: less_Suc_eq_0_disj)
      with False Suc Cons.IH [of k] show ?thesis by auto
    qed
  qed
qed

lemma find_py_bound: "find_py s sep = Some i \<Longrightarrow> i + length sep \<le> length s"
proof -
  assume "find_py s sep = Some i"
  then have "i \<le> length s" "prefix sep (drop i s)" by (simp_all add: find_py_least)
  then have "length sep \<le> length s - i" using prefix_length_le by fastforce
  with \<open>i \<le> length s\<close> show ?thesis by simp
qed

termination split_loop
proof (relation "measure (\<lambda>(s, sep). length s)")
  show "wf (measure (\<lambda>(s, sep). length s))" by simp
next
  fix s sep :: string and i :: nat
  assume "find_py s sep = Some i" "sep \<noteq> []"
  then have "i + length sep \<le> length s" "length sep \<noteq> 0" by (simp_all add: find_py_bound)
  then have "length s - (i + length sep) < length s" by arith
  then show "((drop (i + length sep) s, sep), (s, sep)) \<in> measure (\<lambda>(s, sep). length s)"
    by simp
qed

declare split_loop.simps [simp del]

definition split_py :: "string \<Rightarrow> string \<Rightarrow> py_error + string list" where
  "split_py s sep = (if sep = [] then Inl ValueError else Inr (split_loop s sep))"

text \<open>Decimal rendering of a natural number, as an f-string prints \<^verbatim>\<open>i+1\<close>.\<close>

definition digit_char :: "nat \<Rightarrow> char" where
  "digit_char d = char_of (48 + d)"

fun str_nat :: "nat \<Rightarrow> string" where
  "str_nat n = (if n < 10 then [digit_char n] else str_nat (n div 10) @ [digit_char (n mod 10)])"

declare str_nat.simps [simp del]

section \<open>The generation chain\<close>

text \<open>
  \<^verbatim>\<open>prompt | llm | StrOutputParser()\<close> is the external generation service behind one of the
  three prompt templates. It is a parameter of the model: a function from the template and
  the two values filled into it (the topic and the formatted history) to the generated text.
\<close>

datatype prompt = scientist_prompt | philosopher_prompt | judge_prompt

type_synonym chain = "prompt \<Rightarrow> string \<Rightarrow> string \<Rightarrow> string"

section \<open>Node functions\<close>

definition speaker_label :: "nat \<Rightarrow> string" where
  "speaker_label i = (if i mod 2 = 0 then ''Scientist'' else ''Philosopher'')"

text \<open>What one iteration of the loop of \<^verbatim>\<open>format_history\<close> adds to \<^verbatim>\<open>history_str\<close>.\<close>

definition round_line :: "nat \<Rightarrow> message \<Rightarrow> string" where
  "round_line i msg =
     ''[Round '' @ str_nat (i + 1) @ ''] '' @ speaker_label i @ '': '' @ content msg @ [CHR 0x0A]"

fun history_loop :: "nat \<Rightarrow> message list \<Rightarrow> string \<Rightarrow> string" where
  "history_loop i [] history_str = history_str"
| "history_loop i (msg # msgs) history_str =
     history_loop (Suc i) msgs (history_str @ round_line i msg)"

definition format_history :: "message list \<Rightarrow> string" where
  "format_history msgs =
     (if msgs = [] then ''The debate has not started yet.''
      else strip_py (history_loop 0 msgs []))"

definition filler :: string where
  "filler = ''I will restate my previous point to emphasize its importance.''"

text \<open>
  \<^verbatim>\<open>AnyMessage(content=response, name=speaker)\<close> on line 108. The name is imported from the
  message library, where it is the type alias for the union of the message classes (the
  source uses it as a type in \<^verbatim>\<open>List[AnyMessage]\<close>), not a class. Calling a union alias
  raises TypeError whatever the arguments are, so no message is built.
\<close>

definition AnyMessage :: "string \<Rightarrow> string \<Rightarrow> py_error + message" where
  "AnyMessage content_arg name_arg = Inl TypeError"

text \<open>
  Lines 93 to 106 of \<^verbatim>\<open>agent_node\<close>: the prompt is chosen by the speaker, the chain is invoked
  once, and a response that repeats the content of an earlier message is replaced.
\<close>

definition agent_response :: "chain \<Rightarrow> GraphState \<Rightarrow> string" where
  "agent_response llm state =
     (let speaker = next_speaker state;
          prompt = (if speaker = ''Scientist'' then scientist_prompt else philosopher_prompt);
          response = llm prompt (topic state) (format_history (messages state))
      in if response \<in> set (map content (messages state)) then filler else response)"

text \<open>Lines 110 to 116: the dictionary returned, given the message of line 108.\<close>

definition agent_return :: "GraphState \<Rightarrow> message \<Rightarrow> state_update" where
  "agent_return state new_message =
     (let speaker = next_speaker state;
          next_speaker = (if speaker = ''Scientist'' then ''Philosopher'' else ''Scientist'')
      in no_update\<lparr>u_messages := Some [new_message],
           u_round_number := Some (round_number state + 1),
           u_next_speaker := Some next_speaker\<rparr>)"

definition agent_node :: "chain \<Rightarrow> GraphState \<Rightarrow> py_error + state_update" where
  "agent_node llm state =
     (let speaker = next_speaker state;
          response = agent_response llm state
      in bind_py (AnyMessage response speaker) (\<lambda>new_message.
           Inr (agent_return state new_message)))"

text \<open>The body of the \<^verbatim>\<open>try\<close> block of \<^verbatim>\<open>judge_node\<close>: (summary, winner, justification).\<close>

definition judge_try :: "string \<Rightarrow> py_error + (string \<times> string \<times> string)" where
  "judge_try result =
     bind_py (split_py result ''SUMMARY:'') (\<lambda>l1.
     bind_py (index_py l1 1) (\<lambda>x1.
     bind_py (split_py x1 ''WINNER:'') (\<lambda>l2.
     bind_py (index_py l2 0) (\<lambda>x2.
     bind_py (split_py result ''WINNER:'') (\<lambda>l3.
     bind_py (index_py l3 1) (\<lambda>x3.
     bind_py (split_py x3 ''JUSTIFICATION:'') (\<lambda>l4.
     bind_py (index_py l4 0) (\<lambda>x4.
     bind_py (split_py result ''JUSTIFICATION:'') (\<lambda>l5.
     bind_py (index_py l5 1) (\<lambda>x5.
     Inr (strip_py x2, strip_py x4, strip_py x5)))))))))))"

text \<open>The \<^verbatim>\<open>try\<close> block with its handler, which catches IndexError only.\<close>

definition judge_parse :: "string \<Rightarrow> py_error + (string \<times> string \<times> string)" where
  "judge_parse result =
     (case judge_try result of
        Inr t \<Rightarrow> Inr t
      | Inl IndexError \<Rightarrow>
          Inr (''The judge failed to provide a structured summary.'',
               ''No winner declared'',
               ''The judge's output was malformed.'')
      | Inl e \<Rightarrow> Inl e)"

definition judge_node :: "chain \<Rightarrow> GraphState \<Rightarrow> py_error + state_update" where
  "judge_node llm state =
     (let history = format_history (messages state);
          result = llm judge_prompt (topic state) history
      in bind_py (judge_parse result) (\<lambda>(summary, winner, justification).
           Inr (no_update\<lparr>u_summary := Some summary, u_winner := Some winner,
                  u_justification := Some justification\<rparr>)))"

section \<open>The router\<close>

definition router :: "GraphState \<Rightarrow> string" where
  "router state = (if round_number state \<ge> 8 then ''judge'' else ''agent'')"

section \<open>The graph and its run\<close>

text \<open>
  \<^verbatim>\<open>get_graph\<close> adds the nodes \<^verbatim>\<open>agent\<close> and \<^verbatim>\<open>judge\<close>, enters at \<^verbatim>\<open>agent\<close>, leaves \<^verbatim>\<open>agent\<close> by
  a conditional edge that looks the router's answer up in
  \<^verbatim>\<open>{"agent": "agent", "judge": "judge"}\<close>, and leaves \<^verbatim>\<open>judge\<close> for \<^verbatim>\<open>END\<close>.
\<close>

datatype node = agent | judge

definition entry_point :: node where
  "entry_point = agent"

definition path_map :: "string \<Rightarrow> node option" where
  "path_map key =
     (if key = ''agent'' then Some agent else if key = ''judge'' then Some judge else None)"

text \<open>The successor of a node; \<open>Inr None\<close> is \<^verbatim>\<open>END\<close>. The routing function is a parameter.\<close>

fun next_node :: "(GraphState \<Rightarrow> string) \<Rightarrow> node \<Rightarrow> GraphState \<Rightarrow> py_error + node option" where
  "next_node rt agent s = (case path_map (rt s) of None \<Rightarrow> Inl KeyError | Some n \<Rightarrow> Inr (Some n))"
| "next_node rt judge s = Inr None"

fun run_node :: "chain \<Rightarrow> node \<Rightarrow> GraphState \<Rightarrow> py_error + state_update" where
  "run_node llm agent s = agent_node llm s"
| "run_node llm judge s = judge_node llm s"

datatype run_error = GraphRecursionError | Raised py_error

text \<open>
  Modelled from the spec: the executor behind \<^verbatim>\<open>workflow.compile()\<close> and \<^verbatim>\<open>app.stream\<close> is the
  graph library, which is not among the sources. Following section 4.5 of the specification,
  it runs one node at a time: the node's output is merged into the state, the outgoing edge
  gives the next node, and the run ends normally at \<^verbatim>\<open>END\<close>. It counts node invocations against
  a ceiling and aborts with an error of its own once the ceiling is used up and a node is still
  due. The result is the list of events streamed so far (node and node output) and either the
  error or the final state. The \<open>k\<close>-th node invocation (counted from 0) uses the generation
  chain \<open>llm k\<close>, so that a chain may answer differently from call to call.
\<close>

fun stream_graph ::
  "(GraphState \<Rightarrow> string) \<Rightarrow> (nat \<Rightarrow> chain) \<Rightarrow> nat \<Rightarrow> nat \<Rightarrow> node \<Rightarrow> GraphState \<Rightarrow>
     (node \<times> state_update) list \<times> (run_error + GraphState)" where
  "stream_graph rt llm 0 k nd s = ([], Inl GraphRecursionError)"
| "stream_graph rt llm (Suc fuel) k nd s =
     (case run_node (llm k) nd s of
        Inl e \<Rightarrow> ([], Inl (Raised e))
      | Inr u \<Rightarrow>
          (let s' = apply_update s u
           in case next_node rt nd s' of
                Inl e \<Rightarrow> ([(nd, u)], Inl (Raised e))
              | Inr None \<Rightarrow> ([(nd, u)], Inr s')
              | Inr (Some nd') \<Rightarrow>
                  (case stream_graph rt llm fuel (Suc k) nd' s' of
                     (events, r) \<Rightarrow> ((nd, u) # events, r))))"

text \<open>
  \<^verbatim>\<open>app.stream(initial_state, {"recursion_limit": 15})\<close> in \<^verbatim>\<open>main\<close> (src/main.py): the graph of
  \<^verbatim>\<open>get_graph\<close>, with the router of the source, from the initial state, under the ceiling 15.
\<close>

definition recursion_limit :: nat where
  "recursion_limit = 15"

definition main_stream ::
  "string \<Rightarrow> (nat \<Rightarrow> chain) \<Rightarrow> (node \<times> state_update) list \<times> (run_error + GraphState)" where
  "main_stream t llm = stream_graph router llm recursion_limit 0 entry_point (initial_state t)"

text \<open>One turn, and one adjudication, as a step from state to state.\<close>

definition agent_step :: "chain \<Rightarrow> GraphState \<Rightarrow> py_error + GraphState" where
  "agent_step llm s = bind_py (agent_node llm s) (\<lambda>u. Inr (apply_update s u))"

definition judge_step :: "chain \<Rightarrow> GraphState \<Rightarrow> py_error + GraphState" where
  "judge_step llm s = bind_py (judge_node llm s) (\<lambda>u. Inr (apply_update s u))"

text \<open>
  The states that node executions can lead to from the initial state. An execution of the
  agent node that returns merges the dictionary of lines 110 to 116 for the message built on
  line 108; the rule \<open>reach_agent\<close> admits every message there. An execution of the judge node
  merges what \<^verbatim>\<open>judge_node\<close> returns.
\<close>

inductive reachable :: "string \<Rightarrow> GraphState \<Rightarrow> bool" for t :: string where
  reach_init: "reachable t (initial_state t)"
| reach_agent: "reachable t s \<Longrightarrow> reachable t (apply_update s (agent_return s m))"
| reach_judge: "reachable t s \<Longrightarrow> judge_step llm s = Inr s' \<Longrightarrow> reachable t s'"

text \<open>The positions at which a marker occurs in a text.\<close>

definition occurrences :: "string \<Rightarrow> string \<Rightarrow> nat list" where
  "occurrences s sep = filter (\<lambda>i. prefix sep (drop i s)) [0..<Suc (length s)]"

text \<open>Line \<open>i\<close> of the formatted history (counted from 0), without its line break.\<close>

definition line_text :: "message list \<Rightarrow> nat \<Rightarrow> string" where
  "line_text msgs i = ''[Round '' @ str_nat (i + 1) @ ''] '' @
     (if even i then ''Scientist'' else ''Philosopher'') @ '': '' @ content (msgs ! i)"

section \<open>Facts about splitting and the judge's parser\<close>

lemma find_py_None: "find_py s sep = None \<longleftrightarrow> \<not> sublist sep s"
  by (induction s) (auto simp: sublist_Cons_right)

lemma split_loop_absent: "\<not> sublist sep s \<Longrightarrow> split_loop s sep = [s]"
  by (subst split_loop.simps) (simp add: find_py_None [symmetric])

lemma split_loop_found:
  "sep \<noteq> [] \<Longrightarrow> find_py s sep = Some i \<Longrightarrow>
   split_loop s sep = take i s # split_loop (drop (i + length sep) s) sep"
  by (subst split_loop.simps) simp

lemma split_loop_not_Nil: "split_loop s sep \<noteq> []"
  by (subst split_loop.simps) (simp split: option.split)

lemma split_loop_length: "sep \<noteq> [] \<Longrightarrow> 2 \<le> length (split_loop s sep) \<longleftrightarrow> sublist sep s"
proof (cases "find_py s sep")
  case None
  then show ?thesis by (simp add: split_loop_absent find_py_None [symmetric])
next
  case (Some i)
  assume "sep \<noteq> []"
  with Some have "split_loop s sep = take i s # split_loop (drop (i + length sep) s) sep"
    by (rule split_loop_found [rotated])
  moreover have "split_loop (drop (i + length sep) s) sep \<noteq> []" by (rule split_loop_not_Nil)
  moreover have "sublist sep s" using Some find_py_None [of s sep] by simp
  ultimately show ?thesis by (cases "split_loop (drop (i + length sep) s) sep") auto
qed

lemma occurrences_unique:
  assumes "length (occurrences s sep) = 1" "prefix sep (drop i s)" "i \<le> length s"
    "prefix sep (drop j s)" "j \<le> length s"
  shows "i = j"
proof -
  from assms(1) obtain a where a: "occurrences s sep = [a]"
    by (cases "occurrences s sep") auto
  have "i \<in> set (occurrences s sep)" "j \<in> set (occurrences s sep)"
    using assms by (auto simp: occurrences_def simp del: upt_Suc)
  with a show ?thesis by simp
qed

lemma split_loop_first:
  assumes "sep \<noteq> []" "length (occurrences (p @ x @ sep @ y) sep) = 1"
  shows "split_loop (x @ sep @ y) sep = x # split_loop y sep"
proof -
  have "\<not> prefix sep (drop j (x @ sep @ y))" if "j < length x" for j
  proof
    assume "prefix sep (drop j (x @ sep @ y))"
    then have "prefix sep (drop (length p + j) (p @ x @ sep @ y))" by simp
    moreover have "prefix sep (drop (length p + length x) (p @ x @ sep @ y))" by simp
    ultimately have "length p + j = length p + length x"
      using assms(2) that by (intro occurrences_unique [OF assms(2)]) auto
    with that show False by simp
  qed
  then have "find_py (x @ sep @ y) sep = Some (length x)"
    by (simp add: find_py_least)
  with assms(1) show ?thesis by (simp add: split_loop_found)
qed

lemma split_loop_unique:
  assumes "sep \<noteq> []" "length (occurrences (x @ sep @ y) sep) = 1"
  shows "split_loop (x @ sep @ y) sep = [x, y]"
proof -
  have "\<not> sublist sep y"
  proof
    assume "sublist sep y"
    then obtain ps ss where y: "y = ps @ sep @ ss" by (auto simp: sublist_def)
    have "prefix sep (drop (length x + length sep + length ps) (x @ sep @ y))"
      by (simp add: y)
    moreover have "prefix sep (drop (length x) (x @ sep @ y))" by simp
    ultimately have "length x + length sep + length ps = length x"
      by (intro occurrences_unique [OF assms(2)]) (auto simp: y)
    with assms(1) show False by simp
  qed
  then have "split_loop y sep = [y]" by (rule split_loop_absent)
  moreover have "split_loop (x @ sep @ y) sep = x # split_loop y sep"
    using split_loop_first [of sep "[]" x y] assms by simp
  ultimately show ?thesis by simp
qed

lemma index_py_split_1:
  "sep \<noteq> [] \<Longrightarrow> index_py (split_loop s sep) (Suc 0) =
     (if sublist sep s then Inr (split_loop s sep ! Suc 0) else Inl IndexError)"
  using split_loop_length [of sep s] by (auto simp: index_py_def)

lemma index_py_split_0: "index_py (split_loop s sep) 0 = Inr (hd (split_loop s sep))"
  using split_loop_not_Nil [of s sep] by (cases "split_loop s sep") (auto simp: index_py_def)

lemma judge_try_absent:
  assumes "\<not> sublist ''SUMMARY:'' r \<or> \<not> sublist ''WINNER:'' r \<or> \<not> sublist ''JUSTIFICATION:'' r"
  shows "judge_try r = Inl IndexError"
  using assms
  by (auto simp: judge_try_def bind_py_def split_py_def index_py_split_1 index_py_split_0)

lemma judge_try_error: "judge_try r = Inl e \<Longrightarrow> e = IndexError"
  by (auto simp: judge_try_def bind_py_def split_py_def index_py_def
      split: if_splits sum.splits)

lemma judge_parse_total: "\<exists>x y z. judge_parse r = Inr (x, y, z)"
proof (cases "judge_try r")
  case (Inl e)
  then have "e = IndexError" by (rule judge_try_error)
  with Inl show ?thesis by (simp add: judge_parse_def)
next
  case (Inr t)
  then show ?thesis by (cases t) (simp add: judge_parse_def)
qed

section \<open>Facts about the nodes and the run\<close>

lemma agent_node_raises: "agent_node llm s = Inl TypeError"
  by (simp add: agent_node_def AnyMessage_def bind_py_def)

lemma agent_step_raises: "agent_step llm s = Inl TypeError"
  by (simp add: agent_step_def agent_node_raises bind_py_def)

lemma agent_return_messages: "messages (apply_update s (agent_return s m)) = messages s @ [m]"
  by (simp add: agent_return_def apply_update_def no_update_def)

lemma agent_return_round:
  "round_number (apply_update s (agent_return s m)) = round_number s + 1"
  by (simp add: agent_return_def apply_update_def no_update_def)

lemma judge_step_frame:
  "judge_step llm s = Inr s' \<Longrightarrow> messages s' = messages s \<and> round_number s' = round_number s"
  by (auto simp: judge_step_def judge_node_def bind_py_def apply_update_def no_update_def
      split: sum.splits)

lemma stream_agent_raises:
  "stream_graph rt llm (Suc fuel) k agent s = ([], Inl (Raised TypeError))"
  by (simp add: agent_node_raises)

lemma recursion_limit_Suc: "recursion_limit = Suc 14"
  by (simp add: recursion_limit_def)

section \<open>Facts about the history formatter\<close>

lemma digit_char_not_newline: "d < 10 \<Longrightarrow> digit_char d \<noteq> CHR 0x0A"
proof
  assume d: "d < 10" and "digit_char d = CHR 0x0A"
  then have "(of_char (char_of (48 + d)) :: nat) = of_char (CHR 0x0A)"
    by (simp add: digit_char_def)
  with d show False by simp
qed

lemma str_nat_no_newline: "CHR 0x0A \<notin> set (str_nat n)"
proof (induction n rule: str_nat.induct)
  case (1 n)
  show ?case
  proof (cases "n < 10")
    case True
    then show ?thesis
      using digit_char_not_newline [of n] by (subst str_nat.simps) auto
  next
    case False
    have "digit_char (n mod 10) \<noteq> CHR 0x0A" by (rule digit_char_not_newline) simp
    with False 1 show ?thesis by (subst str_nat.simps) auto
  qed
qed

lemma round_line_text: "round_line i (msgs ! i) = line_text msgs i @ [CHR 0x0A]"
  by (simp add: round_line_def line_text_def speaker_label_def even_iff_mod_2_eq_zero)

lemma history_loop_concat:
  "ms = drop i msgs \<Longrightarrow>
   history_loop i ms acc =
     acc @ concat (map (\<lambda>j. line_text msgs j @ [CHR 0x0A]) [i..<length msgs])"
proof (induction ms arbitrary: i acc)
  case Nil
  then show ?case by simp
next
  case (Cons m ms)
  have i: "i < length msgs"
  proof (rule ccontr)
    assume "\<not> i < length msgs"
    then have "drop i msgs = []" by simp
    with Cons.prems show False by simp
  qed
  then have "drop i msgs = msgs ! i # drop (Suc i) msgs" by (rule Cons_nth_drop_Suc [symmetric])
  with Cons.prems have m: "m = msgs ! i" and ms: "ms = drop (Suc i) msgs" by simp_all
  have "history_loop (Suc i) ms (acc @ round_line i m) =
      (acc @ round_line i m) @
        concat (map (\<lambda>j. line_text msgs j @ [CHR 0x0A]) [Suc i..<length msgs])"
    using ms by (rule Cons.IH)
  then show ?case using i by (simp add: m round_line_text upt_conv_Cons)
qed

lemma find_py_char_absent: "c \<notin> set z \<Longrightarrow> find_py z [c] = None"
  by (induction z) auto

lemma split_loop_char_absent: "c \<notin> set z \<Longrightarrow> split_loop z [c] = [z]"
  by (subst split_loop.simps) (simp add: find_py_char_absent)

lemma find_py_char_first: "c \<notin> set l \<Longrightarrow> find_py (l @ c # rest) [c] = Some (length l)"
  by (induction l) auto

lemma split_loop_char_first:
  "c \<notin> set l \<Longrightarrow> split_loop (l @ c # rest) [c] = l # split_loop rest [c]"
  by (subst split_loop.simps) (simp add: find_py_char_first)

lemma split_loop_lines:
  "\<forall>l \<in> set ls. c \<notin> set l \<Longrightarrow> c \<notin> set z \<Longrightarrow>
   split_loop (concat (map (\<lambda>l. l @ [c]) ls) @ z) [c] = ls @ [z]"
  by (induction ls) (simp_all add: split_loop_char_absent split_loop_char_first)

lemma strip_py_lines:
  assumes "\<not> isspace (hd (x @ l))" "x @ l \<noteq> []" "\<exists>c \<in> set l. \<not> isspace c"
  shows "strip_py (x @ l @ [CHR 0x0A]) = x @ rev (dropWhile isspace (rev l))"
proof -
  have "dropWhile isspace (x @ l @ [CHR 0x0A]) = x @ l @ [CHR 0x0A]"
    using assms(1,2) by (cases "x @ l") (auto simp: append_eq_Cons_conv)
  moreover have "isspace (CHR 0x0A)" by (simp add: isspace_def)
  moreover have "dropWhile isspace (rev l @ rev x) = dropWhile isspace (rev l) @ rev x"
    using assms(3) by (auto intro!: dropWhile_append1)
  ultimately show ?thesis by (simp add: strip_py_def)
qed

lemma line_text_no_newline:
  "CHR 0x0A \<notin> set (content (msgs ! i)) \<Longrightarrow> CHR 0x0A \<notin> set (line_text msgs i)"
  by (simp add: line_text_def str_nat_no_newline)

lemma line_text_colon: "\<exists>c \<in> set (line_text msgs i). \<not> isspace c"
proof -
  have "CHR '':'' \<in> set (line_text msgs i)" by (simp add: line_text_def)
  moreover have "\<not> isspace (CHR '':'')" by (simp add: isspace_def)
  ultimately show ?thesis by blast
qed

lemma line_text_hd: "hd (line_text msgs i @ z) = CHR ''[''"
  by (simp add: line_text_def)

lemma hd_lines:
  "hd (concat (map (\<lambda>j. line_text msgs j @ [CHR 0x0A]) [0..<n]) @ line_text msgs n) = CHR ''[''"
proof (cases n)
  case 0
  then show ?thesis using line_text_hd [of msgs 0 "[]"] by simp
next
  case (Suc k)
  have "[0..<n] = 0 # [Suc 0..<n]" using Suc by (simp only: upt_conv_Cons zero_less_Suc)
  then show ?thesis by (simp only: list.map concat.simps append_assoc line_text_hd)
qed

section \<open>Properties\<close>

text \<open>
  Claim C2. The router depends on the round number only: it answers \<^verbatim>\<open>agent\<close> (continue)
  for every round number from 0 to 7, \<^verbatim>\<open>judge\<close> (adjudicate) for every round number of 8 or
  more, and two states with the same round number get the same answer.
\<close>

theorem router_threshold:
  "(0 \<le> round_number s \<and> round_number s \<le> 7 \<longrightarrow> router s = ''agent'') \<and>
   (8 \<le> round_number s \<longrightarrow> router s = ''judge'') \<and>
   (round_number s = round_number s' \<longrightarrow> router s = router s')"
  by (simp add: router_def)

theorem router_threshold_witness:
  "router (initial_state ''t'') = ''agent'' \<and>
   router ((initial_state ''t'')\<lparr>round_number := 8\<rparr>) = ''judge'' \<and>
   router ((initial_state ''t'')\<lparr>round_number := 8, next_speaker := ''Philosopher''\<rparr>) = ''judge''"
  using router_threshold [of "initial_state ''t''" "initial_state ''t''"]
    router_threshold [of "(initial_state ''t'')\<lparr>round_number := 8\<rparr>"
      "(initial_state ''t'')\<lparr>round_number := 8, next_speaker := ''Philosopher''\<rparr>"]
  by (auto simp: initial_state_def)

text \<open>
  Claim C3, as amended. When at least one of the markers \<^verbatim>\<open>SUMMARY:\<close>, \<^verbatim>\<open>WINNER:\<close>,
  \<^verbatim>\<open>JUSTIFICATION:\<close> does not occur in the judge's response, the judge node does not raise and
  writes the fallback triple of the source: summary
  \<^verbatim>\<open>The judge failed to provide a structured summary.\<close>, winner \<^verbatim>\<open>No winner declared\<close>,
  justification \<^verbatim>\<open>The judge's output was malformed.\<close>
\<close>

theorem judge_fallback:
  assumes "\<not> sublist ''SUMMARY:'' r \<or> \<not> sublist ''WINNER:'' r \<or> \<not> sublist ''JUSTIFICATION:'' r"
    and "llm judge_prompt (topic s) (format_history (messages s)) = r"
  shows "judge_node llm s =
     Inr (no_update\<lparr>u_summary := Some ''The judge failed to provide a structured summary.'',
            u_winner := Some ''No winner declared'',
            u_justification := Some ''The judge's output was malformed.''\<rparr>)"
  using assms(2) judge_try_absent [OF assms(1)]
  by (simp add: judge_node_def judge_parse_def bind_py_def)

theorem judge_fallback_witness:
  "judge_node (\<lambda>p t h. ''plain prose'') (initial_state ''AI'') =
     Inr (no_update\<lparr>u_summary := Some ''The judge failed to provide a structured summary.'',
            u_winner := Some ''No winner declared'',
            u_justification := Some ''The judge's output was malformed.''\<rparr>)"
proof -
  have "\<not> sublist ''SUMMARY:'' ''plain prose''" by code_simp
  then show ?thesis
    using judge_fallback [of "''plain prose''" "\<lambda>p t h. ''plain prose''" "initial_state ''AI''"]
    by simp
qed

text \<open>
  Claim C3 as the specification words it: the triple it quotes is not the one the code
  returns. For a response without any marker the parser does not return the quoted strings.
\<close>

theorem judge_fallback_spec_strings:
  "\<not> sublist ''SUMMARY:'' ''plain prose'' \<and>
   judge_parse ''plain prose'' \<noteq>
     Inr (''judge failed to provide a structured summary'', ''no winner declared'',
          ''judge output was malformed'')"
  by code_simp

text \<open>
  Claim C4, as amended. When the response has the three markers in the order \<^verbatim>\<open>SUMMARY:\<close>,
  \<^verbatim>\<open>WINNER:\<close>, \<^verbatim>\<open>JUSTIFICATION:\<close> and each of them occurs exactly once, the parsed summary is
  the text between \<^verbatim>\<open>SUMMARY:\<close> and \<^verbatim>\<open>WINNER:\<close>, the parsed winner the text between \<^verbatim>\<open>WINNER:\<close>
  and \<^verbatim>\<open>JUSTIFICATION:\<close>, and the parsed justification the text after \<^verbatim>\<open>JUSTIFICATION:\<close>,
  each stripped of surrounding whitespace; the judge node returns these three fields.
\<close>

theorem judge_parse_sections:
  assumes "r = pre @ ''SUMMARY:'' @ a @ ''WINNER:'' @ b @ ''JUSTIFICATION:'' @ c"
    and "length (occurrences r ''SUMMARY:'') = 1"
    and "length (occurrences r ''WINNER:'') = 1"
    and "length (occurrences r ''JUSTIFICATION:'') = 1"
    and "llm judge_prompt (topic s) (format_history (messages s)) = r"
  shows "judge_parse r = Inr (strip_py a, strip_py b, strip_py c) \<and>
     judge_node llm s =
       Inr (no_update\<lparr>u_summary := Some (strip_py a), u_winner := Some (strip_py b),
              u_justification := Some (strip_py c)\<rparr>)"
proof -
  define S W J where "S = ''SUMMARY:''" and "W = ''WINNER:''" and "J = ''JUSTIFICATION:''"
  have ne: "S \<noteq> []" "W \<noteq> []" "J \<noteq> []" by (simp_all add: S_def W_def J_def)
  have r: "r = pre @ S @ a @ W @ b @ J @ c" using assms(1) by (simp add: S_def W_def J_def)
  have occ: "length (occurrences r S) = 1" "length (occurrences r W) = 1"
    "length (occurrences r J) = 1"
    using assms(2-4) by (simp_all add: S_def W_def J_def)
  have s1: "split_loop r S = [pre, a @ W @ b @ J @ c]"
    using occ(1) ne(1) unfolding r by (intro split_loop_unique)
  have "split_loop (a @ W @ b @ J @ c) W = a # split_loop (b @ J @ c) W"
    using split_loop_first [of W "pre @ S" a "b @ J @ c"] occ(2) ne(2) unfolding r by simp
  then have s2: "hd (split_loop (a @ W @ b @ J @ c) W) = a" by simp
  have s3: "split_loop r W = [pre @ S @ a, b @ J @ c]"
    using split_loop_unique [of W "pre @ S @ a" "b @ J @ c"] occ(2) ne(2) unfolding r by simp
  have "split_loop (b @ J @ c) J = b # split_loop c J"
    using split_loop_first [of J "pre @ S @ a @ W" b c] occ(3) ne(3) unfolding r by simp
  then have s4: "hd (split_loop (b @ J @ c) J) = b" by simp
  have s5: "split_loop r J = [pre @ S @ a @ W @ b, c]"
    using split_loop_unique [of J "pre @ S @ a @ W @ b" c] occ(3) ne(3) unfolding r by simp
  have i1: "index_py (split_loop r S) (Suc 0) = Inr (a @ W @ b @ J @ c)"
    and i3: "index_py (split_loop r W) (Suc 0) = Inr (b @ J @ c)"
    and i5: "index_py (split_loop r J) (Suc 0) = Inr c"
    by (simp_all add: index_py_def s1 s3 s5)
  have i2: "index_py (split_loop (a @ W @ b @ J @ c) W) 0 = Inr a"
    and i4: "index_py (split_loop (b @ J @ c) J) 0 = Inr b"
    by (simp_all add: index_py_split_0 s2 s4)
  have "judge_try r = Inr (strip_py a, strip_py b, strip_py c)"
    unfolding judge_try_def S_def [symmetric] W_def [symmetric] J_def [symmetric]
    by (simp add: bind_py_def split_py_def ne i1 i2 i3 i4 i5)
  then have "judge_parse r = Inr (strip_py a, strip_py b, strip_py c)"
    by (simp add: judge_parse_def)
  then show ?thesis using assms(5) by (simp add: judge_node_def bind_py_def)
qed

text \<open>The well-formed response of the specification, parsed to S, W and J.\<close>

theorem judge_parse_sections_witness:
  "judge_parse (''SUMMARY: S'' @ [CHR 0x0A] @ ''WINNER: W'' @ [CHR 0x0A] @ ''JUSTIFICATION: J'')
     = Inr (''S'', ''W'', ''J'') \<and>
   judge_node
       (\<lambda>p t h. ''SUMMARY: S'' @ [CHR 0x0A] @ ''WINNER: W'' @ [CHR 0x0A] @ ''JUSTIFICATION: J'')
       (initial_state ''AI'') =
     Inr (no_update\<lparr>u_summary := Some ''S'', u_winner := Some ''W'',
            u_justification := Some ''J''\<rparr>)"
proof -
  let ?r = "''SUMMARY: S'' @ [CHR 0x0A] @ ''WINNER: W'' @ [CHR 0x0A] @ ''JUSTIFICATION: J''"
  have d: "?r = [] @ ''SUMMARY:'' @ ('' S'' @ [CHR 0x0A]) @ ''WINNER:'' @ ('' W'' @ [CHR 0x0A])
     @ ''JUSTIFICATION:'' @ '' J''" by simp
  have o1: "length (occurrences ?r ''SUMMARY:'') = 1" by code_simp
  have o2: "length (occurrences ?r ''WINNER:'') = 1" by code_simp
  have o3: "length (occurrences ?r ''JUSTIFICATION:'') = 1" by code_simp
  have l: "(\<lambda>p t h. ?r) judge_prompt (topic (initial_state ''AI''))
      (format_history (messages (initial_state ''AI''))) = ?r" by simp
  have t: "strip_py ('' S'' @ [CHR 0x0A]) = ''S''" "strip_py ('' W'' @ [CHR 0x0A]) = ''W''"
    "strip_py '' J'' = ''J''" by code_simp+
  show ?thesis using judge_parse_sections [OF d o1 o2 o3 l] t by simp
qed

text \<open>
  Claim C4 as the specification words it, for every response that has the three markers: a
  response with \<^verbatim>\<open>JUSTIFICATION:\<close> twice has all three markers, and it can be cut at either
  \<^verbatim>\<open>JUSTIFICATION:\<close>; the parser returns neither reading. It stops the justification at the
  second marker.
\<close>

theorem judge_parse_repeated_marker:
  "''SUMMARY: A WINNER: B JUSTIFICATION: C JUSTIFICATION: D'' =
     [] @ ''SUMMARY:'' @ '' A '' @ ''WINNER:'' @ '' B '' @ ''JUSTIFICATION:'' @
       '' C JUSTIFICATION: D'' \<and>
   ''SUMMARY: A WINNER: B JUSTIFICATION: C JUSTIFICATION: D'' =
     [] @ ''SUMMARY:'' @ '' A '' @ ''WINNER:'' @ '' B JUSTIFICATION: C '' @ ''JUSTIFICATION:'' @
       '' D'' \<and>
   judge_parse ''SUMMARY: A WINNER: B JUSTIFICATION: C JUSTIFICATION: D'' =
     Inr (''A'', ''B'', ''C'') \<and>
   judge_parse ''SUMMARY: A WINNER: B JUSTIFICATION: C JUSTIFICATION: D'' \<noteq>
     Inr (strip_py '' A '', strip_py '' B '', strip_py '' C JUSTIFICATION: D'') \<and>
   judge_parse ''SUMMARY: A WINNER: B JUSTIFICATION: C JUSTIFICATION: D'' \<noteq>
     Inr (strip_py '' A '', strip_py '' B JUSTIFICATION: C '', strip_py '' D'')"
  by code_simp

text \<open>
  Claim C10. The judge node does not raise, its output has no key other than summary, winner
  and justification, and merging it leaves topic, messages, round number and next speaker as
  they were.
\<close>

theorem judge_frame:
  "\<exists>u. judge_node llm s = Inr u \<and>
     u_messages u = None \<and> u_round_number u = None \<and> u_next_speaker u = None \<and>
     u_summary u \<noteq> None \<and> u_winner u \<noteq> None \<and> u_justification u \<noteq> None \<and>
     judge_step llm s = Inr (apply_update s u) \<and>
     topic (apply_update s u) = topic s \<and>
     messages (apply_update s u) = messages s \<and>
     round_number (apply_update s u) = round_number s \<and>
     next_speaker (apply_update s u) = next_speaker s"
proof -
  obtain x y z where "judge_parse (llm judge_prompt (topic s) (format_history (messages s)))
    = Inr (x, y, z)"
    using judge_parse_total by blast
  then show ?thesis
    by (simp add: judge_node_def judge_step_def bind_py_def no_update_def apply_update_def)
qed

theorem judge_frame_witness:
  "\<exists>u. judge_node (\<lambda>p t h. ''plain prose'') (initial_state ''AI'') = Inr u \<and>
     u_messages u = None \<and> u_round_number u = None \<and> u_next_speaker u = None \<and>
     u_summary u \<noteq> None \<and> u_winner u \<noteq> None \<and> u_justification u \<noteq> None \<and>
     judge_step (\<lambda>p t h. ''plain prose'') (initial_state ''AI'') =
       Inr (apply_update (initial_state ''AI'') u) \<and>
     topic (apply_update (initial_state ''AI'') u) = ''AI'' \<and>
     messages (apply_update (initial_state ''AI'') u) = [] \<and>
     round_number (apply_update (initial_state ''AI'') u) = 0 \<and>
     next_speaker (apply_update (initial_state ''AI'') u) = ''Scientist''"
  using judge_frame [of "\<lambda>p t h. ''plain prose''" "initial_state ''AI''"]
  by (simp add: initial_state_def)

text \<open>
  Claim C5. One turn is meant to append one message tagged with the current speaker, add 1
  to the round number and hand the turn to the other persona. As the source stands, the
  first turn from the initial state computes its text and then raises TypeError where it
  builds the message: no update is returned and no state follows.
\<close>

theorem take_turn_raises:
  "agent_response (\<lambda>p t h. ''x'') (initial_state ''AI'') = ''x'' \<and>
   agent_node (\<lambda>p t h. ''x'') (initial_state ''AI'') = Inl TypeError \<and>
   agent_step (\<lambda>p t h. ''x'') (initial_state ''AI'') = Inl TypeError"
  by (simp add: agent_node_raises agent_step_raises agent_response_def initial_state_def)

text \<open>
  Claim C6. When the generated text equals the content of an earlier message, the turn is
  meant to append the filler sentence in its place. As the source stands, for a transcript
  holding the text \<^verbatim>\<open>x\<close> and a chain that answers \<^verbatim>\<open>x\<close>, the guard does choose the filler
  sentence, and then the turn raises TypeError where it builds the message: nothing is
  appended.
\<close>

theorem repetition_guard_raises:
  "agent_response (\<lambda>p t h. ''x'')
      ((initial_state ''AI'')\<lparr>messages := [\<lparr>content = ''x'', name = ''Scientist''\<rparr>],
         round_number := 1, next_speaker := ''Philosopher''\<rparr>) =
     ''I will restate my previous point to emphasize its importance.'' \<and>
   agent_node (\<lambda>p t h. ''x'')
      ((initial_state ''AI'')\<lparr>messages := [\<lparr>content = ''x'', name = ''Scientist''\<rparr>],
         round_number := 1, next_speaker := ''Philosopher''\<rparr>) = Inl TypeError \<and>
   agent_step (\<lambda>p t h. ''x'')
      ((initial_state ''AI'')\<lparr>messages := [\<lparr>content = ''x'', name = ''Scientist''\<rparr>],
         round_number := 1, next_speaker := ''Philosopher''\<rparr>) = Inl TypeError"
  by (simp add: agent_node_raises agent_step_raises agent_response_def initial_state_def
      filler_def)

text \<open>
  Claim C8. In every state reachable from the initial state by node executions the round
  number equals the length of the transcript, and every node execution preserves the
  equality: the merge of what the agent node returns, whatever message it has built, and
  the merge of what the judge node returns.
\<close>

theorem round_number_invariant:
  "(reachable t s \<longrightarrow> round_number s = int (length (messages s))) \<and>
   (round_number s = int (length (messages s)) \<longrightarrow>
      (\<forall>m. round_number (apply_update s (agent_return s m)) =
            int (length (messages (apply_update s (agent_return s m))))) \<and>
      (\<forall>s'. judge_step llm s = Inr s' \<longrightarrow> round_number s' = int (length (messages s'))))"
proof -
  have "round_number s = int (length (messages s))" if "reachable t s"
    using that
  proof (induction rule: reachable.induct)
    case reach_init
    show ?case by (simp add: initial_state_def)
  next
    case (reach_agent s m)
    then show ?case by (simp add: agent_return_messages agent_return_round)
  next
    case (reach_judge s llm s')
    then show ?case using judge_step_frame by fastforce
  qed
  moreover have "round_number s' = int (length (messages s'))"
    if "round_number s = int (length (messages s))" "judge_step llm s = Inr s'" for s'
    using that judge_step_frame by fastforce
  ultimately show ?thesis
    by (simp add: agent_return_messages agent_return_round)
qed

theorem round_number_invariant_witness:
  "reachable ''AI''
     (apply_update (initial_state ''AI'')
        (agent_return (initial_state ''AI'') \<lparr>content = ''x'', name = ''Scientist''\<rparr>)) \<and>
   round_number
     (apply_update (initial_state ''AI'')
        (agent_return (initial_state ''AI'') \<lparr>content = ''x'', name = ''Scientist''\<rparr>)) = 1 \<and>
   length (messages
     (apply_update (initial_state ''AI'')
        (agent_return (initial_state ''AI'') \<lparr>content = ''x'', name = ''Scientist''\<rparr>))) = 1 \<and>
   (\<exists>s'. judge_step (\<lambda>p t h. ''plain prose'')
       (apply_update (initial_state ''AI'')
          (agent_return (initial_state ''AI'') \<lparr>content = ''x'', name = ''Scientist''\<rparr>)) = Inr s' \<and>
     round_number s' = int (length (messages s')) \<and> round_number s' = 1)"
proof -
  let ?s = "apply_update (initial_state ''AI'')
        (agent_return (initial_state ''AI'') \<lparr>content = ''x'', name = ''Scientist''\<rparr>)"
  have r: "reachable ''AI'' ?s" by (rule reach_agent [OF reach_init])
  have n: "round_number ?s = 1" "length (messages ?s) = 1"
    by (simp_all add: agent_return_messages agent_return_round initial_state_def)
  obtain x y z where "judge_parse ''plain prose'' = Inr (x, y, z)"
    using judge_parse_total by blast
  then obtain s' where j: "judge_step (\<lambda>p t h. ''plain prose'') ?s = Inr s'"
    by (simp add: judge_step_def judge_node_def bind_py_def)
  have inv: "round_number ?s = int (length (messages ?s))"
    using r round_number_invariant [of "''AI''" ?s] by blast
  then have "round_number s' = int (length (messages s'))"
    using j round_number_invariant [of "''AI''" ?s "\<lambda>p t h. ''plain prose''"] by blast
  moreover have "round_number s' = 1" using j judge_step_frame n(1) by fastforce
  ultimately show ?thesis using r n j by blast
qed

text \<open>
  Claim C1. From the initial state the run is meant to execute eight turns and then the
  judge once. As the source stands, with a chain that answers a new text at every call,
  the first execution of the agent node raises TypeError: the run ends with that error, no
  event is streamed, and neither a transcript of eight messages nor a judgement is reached.
\<close>

theorem debate_run_raises:
  "main_stream ''AI'' (\<lambda>k p t h. str_nat k) = ([], Inl (Raised TypeError))"
  by (simp only: main_stream_def recursion_limit_Suc entry_point_def stream_agent_raises)

text \<open>
  Claim C9. With a routing function that always answers \<^verbatim>\<open>agent\<close>, the run under the ceiling
  of \<^verbatim>\<open>main\<close> is meant to abort with the recursion error once 15 nodes have run. As the
  source stands, it does end, but with the TypeError of the first execution of the agent
  node and before any event: the ceiling is never reached and its error is not the one
  raised.
\<close>

theorem iteration_ceiling_raises:
  "stream_graph (\<lambda>s. ''agent'') (\<lambda>k p t h. str_nat k) recursion_limit 0 entry_point
      (initial_state ''AI'') = ([], Inl (Raised TypeError)) \<and>
   Inl (Raised TypeError) \<noteq> (Inl GraphRecursionError :: run_error + GraphState)"
proof -
  have "stream_graph (\<lambda>s. ''agent'') (\<lambda>k p t h. str_nat k) recursion_limit 0 entry_point
      (initial_state ''AI'') = ([], Inl (Raised TypeError))"
    by (simp only: recursion_limit_Suc entry_point_def stream_agent_raises)
  then show ?thesis by simp
qed

text \<open>
  Claim C7, as amended. The formatter is total. For the empty transcript it returns
  \<^verbatim>\<open>The debate has not started yet.\<close> For a non-empty transcript of \<open>n\<close> messages none of whose
  texts contains a line break, its output consists of exactly \<open>n\<close> lines in transcript order;
  line \<open>i\<close> (counted from 1) is \<^verbatim>\<open>[Round i] Label: text\<close> with the label Scientist when \<open>i\<close> is
  odd and Philosopher when it is even; whitespace is removed at the end of the output only,
  that is, at the end of the last line.
\<close>

theorem format_history_lines:
  "format_history [] = ''The debate has not started yet.'' \<and>
   (msgs \<noteq> [] \<and> (\<forall>m \<in> set msgs. CHR 0x0A \<notin> set (content m)) \<longrightarrow>
      split_loop (format_history msgs) [CHR 0x0A] =
        map (\<lambda>i. ''[Round '' @ str_nat (i + 1) @ ''] '' @
                 (if even i then ''Scientist'' else ''Philosopher'') @ '': '' @
                 content (msgs ! i)) [0..<length msgs - 1] @
        [rev (dropWhile isspace (rev
           (''[Round '' @ str_nat (length msgs) @ ''] '' @
            (if even (length msgs - 1) then ''Scientist'' else ''Philosopher'') @ '': '' @
            content (last msgs))))])"
proof (intro conjI impI)
  show "format_history [] = ''The debate has not started yet.''"
    by (simp add: format_history_def)
next
  assume a: "msgs \<noteq> [] \<and> (\<forall>m \<in> set msgs. CHR 0x0A \<notin> set (content m))"
  define n where "n = length msgs - 1"
  define x where "x = concat (map (\<lambda>j. line_text msgs j @ [CHR 0x0A]) [0..<n])"
  from a have len: "length msgs = Suc n" by (cases msgs) (simp_all add: n_def)
  have nl: "CHR 0x0A \<notin> set (line_text msgs j)" if "j \<le> n" for j
    using a len that by (intro line_text_no_newline) simp
  have "history_loop 0 msgs [] = x @ line_text msgs n @ [CHR 0x0A]"
    by (simp add: history_loop_concat [of msgs 0 msgs] len x_def)
  moreover have "strip_py (x @ line_text msgs n @ [CHR 0x0A]) =
      x @ rev (dropWhile isspace (rev (line_text msgs n)))"
  proof (rule strip_py_lines)
    show "x @ line_text msgs n \<noteq> []" by (simp add: line_text_def)
    show "\<exists>c \<in> set (line_text msgs n). \<not> isspace c" by (rule line_text_colon)
    have "hd (x @ line_text msgs n) = CHR ''[''" unfolding x_def by (rule hd_lines)
    then show "\<not> isspace (hd (x @ line_text msgs n))" by (simp add: isspace_def)
  qed
  ultimately have fh: "format_history msgs =
      concat (map (\<lambda>l. l @ [CHR 0x0A]) (map (line_text msgs) [0..<n])) @
        rev (dropWhile isspace (rev (line_text msgs n)))"
    using a by (simp add: format_history_def x_def comp_def)
  have "CHR 0x0A \<notin> set (rev (dropWhile isspace (rev (line_text msgs n))))"
    using nl [of n] set_dropWhileD [of "CHR 0x0A" isspace "rev (line_text msgs n)"] by auto
  moreover have "\<forall>l \<in> set (map (line_text msgs) [0..<n]). CHR 0x0A \<notin> set l"
    using nl by auto
  ultimately have "split_loop (format_history msgs) [CHR 0x0A] =
      map (line_text msgs) [0..<n] @ [rev (dropWhile isspace (rev (line_text msgs n)))]"
    unfolding fh by (intro split_loop_lines)
  moreover have "msgs ! n = last msgs" using a len by (simp add: last_conv_nth)
  ultimately show "split_loop (format_history msgs) [CHR 0x0A] =
        map (\<lambda>i. ''[Round '' @ str_nat (i + 1) @ ''] '' @
                 (if even i then ''Scientist'' else ''Philosopher'') @ '': '' @
                 content (msgs ! i)) [0..<length msgs - 1] @
        [rev (dropWhile isspace (rev
           (''[Round '' @ str_nat (length msgs) @ ''] '' @
            (if even (length msgs - 1) then ''Scientist'' else ''Philosopher'') @ '': '' @
            content (last msgs))))]"
    by (simp add: line_text_def [abs_def] n_def [symmetric] len)
qed


theorem format_history_lines_witness:
  "split_loop (format_history [\<lparr>content = ''hello '', name = ''Scientist''\<rparr>,
       \<lparr>content = ''ok  '', name = ''Philosopher''\<rparr>]) [CHR 0x0A] =
     [''[Round 1] Scientist: hello '', ''[Round 2] Philosopher: ok'']"
proof -
  let ?m = "[\<lparr>content = ''hello '', name = ''Scientist''\<rparr>,
       \<lparr>content = ''ok  '', name = ''Philosopher''\<rparr>]"
  have h: "?m \<noteq> [] \<and> (\<forall>m \<in> set ?m. CHR 0x0A \<notin> set (content m))" by simp
  have rhs: "map (\<lambda>i. ''[Round '' @ str_nat (i + 1) @ ''] '' @
                 (if even i then ''Scientist'' else ''Philosopher'') @ '': '' @
                 content (?m ! i)) [0..<length ?m - 1] @
        [rev (dropWhile isspace (rev
           (''[Round '' @ str_nat (length ?m) @ ''] '' @
            (if even (length ?m - 1) then ''Scientist'' else ''Philosopher'') @ '': '' @
            content (last ?m))))] =
     [''[Round 1] Scientist: hello '', ''[Round 2] Philosopher: ok'']"
    by code_simp
  from format_history_lines [of ?m] h
  have "split_loop (format_history ?m) [CHR 0x0A] =
      map (\<lambda>i. ''[Round '' @ str_nat (i + 1) @ ''] '' @
                 (if even i then ''Scientist'' else ''Philosopher'') @ '': '' @
                 content (?m ! i)) [0..<length ?m - 1] @
        [rev (dropWhile isspace (rev
           (''[Round '' @ str_nat (length ?m) @ ''] '' @
            (if even (length ?m - 1) then ''Scientist'' else ''Philosopher'') @ '': '' @
            content (last ?m))))]"
    by blast
  then show ?thesis by (simp only: rhs)
qed

text \<open>
  Claim C7 as the specification words it: the text returned for the empty transcript is not
  the one the specification quotes, and one message whose text has a line break is
  formatted as two lines.
\<close>

theorem format_history_spec_reading:
  "format_history [] \<noteq> ''the debate has not started'' \<and>
   split_loop (format_history [\<lparr>content = ''a'' @ [CHR 0x0A] @ ''b'', name = ''Scientist''\<rparr>])
       [CHR 0x0A] = [''[Round 1] Scientist: a'', ''b'']"
  by code_simp

end
